theory Spec2Isabelle
  imports Main "HOL-Library.Sublist"
begin

section \<open>The activation entry point of the C# extension (src/omnisharp/extension.ts)\<close>

text \<open>
  The file is event-driven glue: \<open>activate\<close> registers listeners on the server's
  events, and the listeners register feature providers, start asynchronous requests and
  write to the persisted workspace state. The embedding is a state machine:
  \<^item> \<open>ExtState\<close> holds what \<open>activate\<close> and its closures own (the two disposable lists,
    the captured options, the listeners registered on the server) and what they do to
    the host (telemetry sent, warnings shown, output channel, workspace state, dispose
    calls, promises still pending, rejections nobody handles);
  \<^item> \<open>activate\<close> builds the state the function leaves behind when it returns;
  \<^item> \<open>step\<close> runs one turn of the host's event loop: a server event fires its listeners
    in registration order, a settled promise runs the continuation attached by \<open>then\<close>;
  \<^item> \<open>run\<close> folds \<open>step\<close> over a trace of events.
  The server, the feature providers, \<open>utils\<close>, \<open>common\<close> and \<open>assets\<close> are other modules;
  what this file reads from them is a parameter (\<open>Imports\<close>) or part of an event.
\<close>

subsection \<open>Host values\<close>

text \<open>Values kept in a memento or a configuration; \<open>None\<close> at a key is \<open>undefined\<close>.\<close>

datatype JsValue = JBool bool | JString string

text \<open>JavaScript truthiness, as the \<open>!\<close> of lines 92 and 106 reads it.\<close>

fun truthy :: "JsValue option \<Rightarrow> bool" where
  "truthy None = False"
| "truthy (Some (JBool b)) = b"
| "truthy (Some (JString s)) = (s \<noteq> [])"

text \<open>The two fields of \<open>Options.Read()\<close> that the file reads.\<close>

record Options =
  useFormatting :: bool
  autoStart :: bool

record DocumentSelector =
  language :: "string option"
  scheme :: "string option"

text \<open>Lines 39 to 42.\<close>

definition documentSelector :: DocumentSelector where
  "documentSelector = \<lparr>language = Some ''csharp'', scheme = Some ''file''\<rparr>"

text \<open>
  What is pushed on \<open>localDisposables\<close>: the object a constructor made, or the
  disposable a registration call returned. \<open>Origin\<close> names the constructor or the call.
\<close>

datatype Origin =
    DefinitionMetadataDocumentProviderObject
  | RegisterDefinitionProvider
  | RegisterImplementationProvider
  | TestManagerObject
  | RegisterCodeLensProvider
  | RegisterDocumentHighlightProvider
  | RegisterDocumentSymbolProvider
  | RegisterReferenceProvider
  | RegisterHoverProvider
  | RegisterRenameProvider
  | RegisterDocumentRangeFormattingEditProvider
  | RegisterOnTypeFormattingEditProvider
  | RegisterCompletionItemProvider
  | RegisterWorkspaceSymbolProvider
  | RegisterSignatureHelpProvider
  | CodeActionProviderObject
  | RegisterCodeActionsProvider
  | ReportDiagnostics
  | ForwardChanges

text \<open>
  A disposable: \<open>ident\<close> is the identity of the object (every call allocates a new one),
  \<open>selector\<close> the document selector the call was given, if it takes one,
  \<open>triggerCharacters\<close> the trigger characters it was given.
\<close>

record Disposable =
  ident :: nat
  origin :: Origin
  selector :: "DocumentSelector option"
  triggerCharacters :: string

subsection \<open>The protocol types read by the telemetry and the warning\<close>

record DotNetProject =
  SourceFiles :: "string list option"

record DotNetWorkspaceInformation =
  Projects :: "DotNetProject list"

text \<open>
  \<open>others\<close> stands for the fields of an MSBuild project that this file does not read
  (\<open>utils.isNetCoreProject\<close> does).
\<close>

record 'm MSBuildProject =
  SourceFiles :: "string list option"
  IsUnityProject :: bool
  others :: 'm

record 'm MsBuildWorkspaceInformation =
  Projects :: "'m MSBuildProject list"

record 'm WorkspaceInformationResponse =
  DotNet :: "DotNetWorkspaceInformation option"
  MsBuild :: "'m MsBuildWorkspaceInformation option"

text \<open>
  The enum \<open>AddAssetResult\<close> is declared in \<open>../assets\<close>; this file names one member,
  \<open>Disable\<close>. Every other member is \<open>OtherResult\<close> with its number.
\<close>

datatype AddAssetResult = Disable | OtherResult nat

text \<open>What the file imports from modules that are not part of it.\<close>

record 'm Imports =
  metadataScheme :: string
  isNetCoreProject :: "'m MSBuildProject \<Rightarrow> bool"

subsection \<open>Listeners, promises, events\<close>

text \<open>
  The listeners \<open>activate\<close> registers with \<open>server.onServerStart\<close>, one constructor for
  each closure: lines 52, 93, 107, 125 and 166.
\<close>

datatype StartListener =
    RegisterProviders
  | AddAssets
  | ProjectJsonWarning
  | StartTelemetry
  | ResolveActivation

text \<open>Line 84 and line 149.\<close>

datatype StopListener = DisposeLocalDisposables

datatype BeforeStartListener = StoreLastSolutionPathOrFolder

text \<open>
  The callbacks given to \<open>then\<close>: lines 95, 109, 115 and 129. The telemetry callback
  closes over the \<open>measures\<close> object made at line 126.
\<close>

datatype Continuation =
    AssetsThen
  | WarningInfoThen
  | WarningItemThen
  | TelemetryThen "string \<rightharpoonup> nat"

datatype 'a Outcome = Resolved 'a | Rejected string

text \<open>What \<open>activate\<close> pushes on \<open>disposables\<close> and hands to \<open>context.subscriptions\<close>.\<close>

datatype Subscription =
    StartListenerSub StartListener
  | StopListenerSub StopListener
  | BeforeStartListenerSub BeforeStartListener
  | RegisterCommands
  | ReportStatus
  | StopServerOnDeactivate
  | DebugConfigurationProvider string

record ExtState =
  options :: Options
  startListeners :: "StartListener list"
  stopListeners :: "StopListener list"
  beforeStartListeners :: "BeforeStartListener list"
  disposables :: "Subscription list"
  localDisposables :: "Disposable list"
  nextId :: nat
  pending :: "(nat \<times> Continuation) list"
  nextPromise :: nat
  workspaceState :: "string \<rightharpoonup> JsValue"
  disposed :: "Disposable list"
  telemetry :: "(string \<times> (string \<rightharpoonup> nat)) list"
  warnings :: "(string \<times> string list) list"
  channel :: "string list"
  channelShown :: nat
  unhandled :: "string list"
  activated :: "string option"
  autoStartCalls :: "JsValue option list"

text \<open>
  One turn of the event loop. The three server events carry what the server passes to
  the listeners; a settled promise is named by the number it got when it was made.
\<close>

datatype 'm Event =
    BeforeServerStart string
  | ServerStart string
  | ServerStop
  | AssetsSettled nat "AddAssetResult Outcome"
  | WorkspaceInformationSettled nat "'m WorkspaceInformationResponse Outcome"
  | WarningMessageSettled nat "string option Outcome"

subsection \<open>The helpers of \<open>../common\<close>\<close>

text \<open>
  Modelled from the spec: \<open>safeLength\<close> is imported from \<open>../common\<close>, which is not
  among the sources; the length of the array, 0 when it is absent.
\<close>

definition safeLength :: "'a list option \<Rightarrow> nat" where
  "safeLength arr = (case arr of None \<Rightarrow> 0 | Some xs \<Rightarrow> length xs)"

text \<open>
  Modelled from the spec: \<open>sum\<close> is imported from \<open>../common\<close>, which is not among the
  sources; the selector's values added up from 0, left to right.
\<close>

definition sum_common :: "'a list \<Rightarrow> ('a \<Rightarrow> nat) \<Rightarrow> nat" where
  "sum_common arr sel = foldl (\<lambda>prev cur. prev + sel cur) 0 arr"

subsection \<open>The server-start listener of lines 52 to 82\<close>

text \<open>\<open>localDisposables.push\<close> of a newly made object.\<close>

definition push :: "Origin \<times> DocumentSelector option \<times> string \<Rightarrow> ExtState \<Rightarrow> ExtState" where
  "push c s =
     s\<lparr>localDisposables := localDisposables s @
          [\<lparr>ident = nextId s, origin = fst c, selector = fst (snd c),
            triggerCharacters = snd (snd c)\<rparr>],
       nextId := Suc (nextId s)\<rparr>"

text \<open>
  The pushes of the listener, in the order of the source: what is pushed, the selector
  passed and the trigger characters passed.
\<close>

definition providerCalls :: "string \<Rightarrow> Options \<Rightarrow> (Origin \<times> DocumentSelector option \<times> string) list" where
  "providerCalls metaScheme opts =
     [(DefinitionMetadataDocumentProviderObject, None, []),
      (RegisterDefinitionProvider, Some documentSelector, []),
      (RegisterDefinitionProvider, Some \<lparr>language = None, scheme = Some metaScheme\<rparr>, []),
      (RegisterImplementationProvider, Some documentSelector, []),
      (TestManagerObject, None, []),
      (RegisterCodeLensProvider, Some documentSelector, []),
      (RegisterDocumentHighlightProvider, Some documentSelector, []),
      (RegisterDocumentSymbolProvider, Some documentSelector, []),
      (RegisterReferenceProvider, Some documentSelector, []),
      (RegisterHoverProvider, Some documentSelector, []),
      (RegisterRenameProvider, Some documentSelector, [])]
     @ (if useFormatting opts
        then [(RegisterDocumentRangeFormattingEditProvider, Some documentSelector, []),
              (RegisterOnTypeFormattingEditProvider, Some documentSelector, ''};'')]
        else [])
     @ [(RegisterCompletionItemProvider, Some documentSelector, ''. ''),
        (RegisterWorkspaceSymbolProvider, None, []),
        (RegisterSignatureHelpProvider, Some documentSelector, ''(,''),
        (CodeActionProviderObject, None, []),
        (RegisterCodeActionsProvider, Some documentSelector, []),
        (ReportDiagnostics, None, []),
        (ForwardChanges, None, [])]"

definition registerProviders :: "string \<Rightarrow> ExtState \<Rightarrow> ExtState" where
  "registerProviders metaScheme s = fold push (providerCalls metaScheme (options s)) s"

subsection \<open>Promises\<close>

text \<open>
  \<open>p.then(k)\<close> on a promise a collaborator has just returned: the promise is pending,
  with \<open>k\<close> as its only reaction and no rejection handler.
\<close>

definition thenDo :: "Continuation \<Rightarrow> ExtState \<Rightarrow> ExtState" where
  "thenDo k s =
     s\<lparr>pending := pending s @ [(nextPromise s, k)], nextPromise := Suc (nextPromise s)\<rparr>"

text \<open>A promise settles once: it leaves the pending list.\<close>

definition settle :: "nat \<Rightarrow> ExtState \<Rightarrow> ExtState" where
  "settle pid s = s\<lparr>pending := filter (\<lambda>p. fst p \<noteq> pid) (pending s)\<rparr>"

text \<open>
  A rejection with no handler: the promise \<open>then\<close> returned is rejected with the same
  reason, nothing is attached to it, and the host gets the rejection.
\<close>

definition unhandledRejection :: "string \<Rightarrow> ExtState \<Rightarrow> ExtState" where
  "unhandledRejection err s = s\<lparr>unhandled := unhandled s @ [err]\<rparr>"

subsection \<open>The callbacks\<close>

text \<open>Lines 95 to 99.\<close>

definition assetsThen :: "AddAssetResult \<Rightarrow> ExtState \<Rightarrow> ExtState" where
  "assetsThen result s =
     (if result = Disable
      then s\<lparr>workspaceState := (workspaceState s)(''assetPromptDisabled'' \<mapsto> JBool True)\<rparr>
      else s)"

definition shortMessage :: string where
  "shortMessage = ''project.json is no longer a supported project format for .NET Core applications.''"

definition detailedMessage :: string where
  "detailedMessage = ''Warning: project.json is no longer a supported project format for .NET Core applications. Update to the latest version of .NET Core (https://aka.ms/netcoredownload) and use '' @ [CHR 0x27] @ ''dotnet migrate'' @ [CHR 0x27] @ '' to upgrade your project (see https://aka.ms/netcoremigrate for details).''"

text \<open>The test of lines 110 and 130: \<open>info.DotNet && info.DotNet.Projects.length > 0\<close>.\<close>

definition hasDotNetProjects :: "'m WorkspaceInformationResponse \<Rightarrow> bool" where
  "hasDotNetProjects workspaceInfo =
     (case DotNet workspaceInfo of
        None \<Rightarrow> False
      | Some d \<Rightarrow> length (DotNetWorkspaceInformation.Projects d) > 0)"

text \<open>The test of line 135.\<close>

definition hasMsBuildProjects :: "'m WorkspaceInformationResponse \<Rightarrow> bool" where
  "hasMsBuildProjects workspaceInfo =
     (case MsBuild workspaceInfo of
        None \<Rightarrow> False
      | Some b \<Rightarrow> length (MsBuildWorkspaceInformation.Projects b) > 0)"

text \<open>Lines 109 to 120: the warning is shown, and its promise gets the callback of line 115.\<close>

definition warningInfoThen :: "'m WorkspaceInformationResponse \<Rightarrow> ExtState \<Rightarrow> ExtState" where
  "warningInfoThen workspaceInfo s =
     (if hasDotNetProjects workspaceInfo
      then thenDo WarningItemThen (s\<lparr>warnings := warnings s @ [(shortMessage, [''More Detail''])]\<rparr>)
      else s)"

text \<open>Lines 115 to 118; the item chosen is not read.\<close>

definition warningItemThen :: "string option \<Rightarrow> ExtState \<Rightarrow> ExtState" where
  "warningItemThen item s =
     s\<lparr>channel := channel s @ [detailedMessage], channelShown := Suc (channelShown s)\<rparr>"

text \<open>Lines 130 to 140: the measures after the two \<open>if\<close>s.\<close>

definition fillMeasures ::
  "'m Imports \<Rightarrow> (string \<rightharpoonup> nat) \<Rightarrow> 'm WorkspaceInformationResponse \<Rightarrow> (string \<rightharpoonup> nat)" where
  "fillMeasures env msrs workspaceInfo =
     (let m1 =
        (if hasDotNetProjects workspaceInfo
         then (let ps = DotNetWorkspaceInformation.Projects (the (DotNet workspaceInfo)) in
               msrs(''projectjson.projectcount'' \<mapsto> length ps,
                        ''projectjson.filecount'' \<mapsto>
                           sum_common ps (\<lambda>p. safeLength (DotNetProject.SourceFiles p))))
         else msrs)
      in
        (if hasMsBuildProjects workspaceInfo
         then (let ps = MsBuildWorkspaceInformation.Projects (the (MsBuild workspaceInfo)) in
               m1(''msbuild.projectcount'' \<mapsto> length ps,
                  ''msbuild.filecount'' \<mapsto>
                     sum_common ps (\<lambda>p. safeLength (MSBuildProject.SourceFiles p)),
                  ''msbuild.unityprojectcount'' \<mapsto>
                     sum_common ps (\<lambda>p. if IsUnityProject p then 1 else 0),
                  ''msbuild.netcoreprojectcount'' \<mapsto>
                     sum_common ps (\<lambda>p. if isNetCoreProject env p then 1 else 0)))
         else m1))"

text \<open>Lines 129 to 145.\<close>

definition telemetryThen ::
  "'m Imports \<Rightarrow> (string \<rightharpoonup> nat) \<Rightarrow> 'm WorkspaceInformationResponse \<Rightarrow> ExtState \<Rightarrow> ExtState" where
  "telemetryThen env msrs workspaceInfo s =
     s\<lparr>telemetry := telemetry s @ [(''OmniSharp.Start'', fillMeasures env msrs workspaceInfo)]\<rparr>"

subsection \<open>The listeners\<close>

text \<open>
  \<open>resolve(e)\<close> of line 166: the first call settles the promise \<open>activate\<close> returned,
  a later call changes nothing.
\<close>

definition resolveActivation :: "string \<Rightarrow> ExtState \<Rightarrow> ExtState" where
  "resolveActivation e s =
     (case activated s of None \<Rightarrow> s\<lparr>activated := Some e\<rparr> | Some _ \<Rightarrow> s)"

fun startHandler :: "string \<Rightarrow> StartListener \<Rightarrow> string \<Rightarrow> ExtState \<Rightarrow> ExtState" where
  "startHandler metaScheme RegisterProviders e s = registerProviders metaScheme s"
| "startHandler metaScheme AddAssets e s = thenDo AssetsThen s"
| "startHandler metaScheme ProjectJsonWarning e s = thenDo WarningInfoThen s"
| "startHandler metaScheme StartTelemetry e s =
     (let msrs = Map.empty in thenDo (TelemetryThen msrs) s)"
| "startHandler metaScheme ResolveActivation e s = resolveActivation e s"

text \<open>Line 86: \<open>Disposable.from(...localDisposables).dispose()\<close> disposes each element in turn.\<close>

fun stopHandler :: "StopListener \<Rightarrow> ExtState \<Rightarrow> ExtState" where
  "stopHandler DisposeLocalDisposables s = s\<lparr>disposed := disposed s @ localDisposables s\<rparr>"

text \<open>Line 149.\<close>

fun beforeStartHandler :: "BeforeStartListener \<Rightarrow> string \<Rightarrow> ExtState \<Rightarrow> ExtState" where
  "beforeStartHandler StoreLastSolutionPathOrFolder path s =
     s\<lparr>workspaceState := (workspaceState s)(''lastSolutionPathOrFolder'' \<mapsto> JString path)\<rparr>"

subsection \<open>\<open>activate\<close>\<close>

text \<open>
  The state when \<open>activate\<close> returns, from the options read, the workspace state of the
  context and the \<open>csharp\<close> configuration. The server's listeners are in the order of the
  \<open>onServerStart\<close> calls; the listener of line 166 is registered but not pushed on
  \<open>disposables\<close>.
\<close>

definition activate ::
  "Options \<Rightarrow> (string \<rightharpoonup> JsValue) \<Rightarrow> (string \<rightharpoonup> JsValue) \<Rightarrow> ExtState" where
  "activate opts ctxState csharpConfig =
     (let assets = (if \<not> truthy (ctxState ''assetPromptDisabled'') then [AddAssets] else []);
          warning = (if \<not> truthy (csharpConfig ''suppressProjectJsonWarning'')
                     then [ProjectJsonWarning] else [])
      in
       \<lparr>options = opts,
        startListeners = [RegisterProviders] @ assets @ warning @ [StartTelemetry, ResolveActivation],
        stopListeners = [DisposeLocalDisposables],
        beforeStartListeners = [StoreLastSolutionPathOrFolder],
        disposables =
          [StartListenerSub RegisterProviders, StopListenerSub DisposeLocalDisposables,
           RegisterCommands, ReportStatus]
          @ map StartListenerSub assets @ map StartListenerSub warning
          @ [StartListenerSub StartTelemetry,
             BeforeStartListenerSub StoreLastSolutionPathOrFolder,
             StopServerOnDeactivate, DebugConfigurationProvider ''coreclr''],
        localDisposables = [],
        nextId = 0,
        pending = [],
        nextPromise = 0,
        workspaceState = ctxState,
        disposed = [],
        telemetry = [],
        warnings = [],
        channel = [],
        channelShown = 0,
        unhandled = [],
        activated = None,
        autoStartCalls =
          (if autoStart opts then [ctxState ''lastSolutionPathOrFolder''] else [])\<rparr>)"

subsection \<open>The event loop\<close>

text \<open>
  A server event calls its listeners in the order they were registered. A settled
  promise runs the callback it was given when it is still pending and the value is of
  the callback's kind; otherwise nothing of this file runs.
\<close>

fun step :: "'m Imports \<Rightarrow> 'm Event \<Rightarrow> ExtState \<Rightarrow> ExtState" where
  "step env (BeforeServerStart path) s =
     fold (\<lambda>l. beforeStartHandler l path) (beforeStartListeners s) s"
| "step env (ServerStart e) s =
     fold (\<lambda>l. startHandler (metadataScheme env) l e) (startListeners s) s"
| "step env ServerStop s = fold stopHandler (stopListeners s) s"
| "step env (AssetsSettled pid out) s =
     (case map_of (pending s) pid of
        Some AssetsThen \<Rightarrow>
          (case out of
             Resolved result \<Rightarrow> assetsThen result (settle pid s)
           | Rejected err \<Rightarrow> unhandledRejection err (settle pid s))
      | _ \<Rightarrow> s)"
| "step env (WorkspaceInformationSettled pid out) s =
     (case map_of (pending s) pid of
        Some WarningInfoThen \<Rightarrow>
          (case out of
             Resolved workspaceInfo \<Rightarrow> warningInfoThen workspaceInfo (settle pid s)
           | Rejected err \<Rightarrow> unhandledRejection err (settle pid s))
      | Some (TelemetryThen msrs) \<Rightarrow>
          (case out of
             Resolved workspaceInfo \<Rightarrow> telemetryThen env msrs workspaceInfo (settle pid s)
           | Rejected err \<Rightarrow> unhandledRejection err (settle pid s))
      | _ \<Rightarrow> s)"
| "step env (WarningMessageSettled pid out) s =
     (case map_of (pending s) pid of
        Some WarningItemThen \<Rightarrow>
          (case out of
             Resolved item \<Rightarrow> warningItemThen item (settle pid s)
           | Rejected err \<Rightarrow> unhandledRejection err (settle pid s))
      | _ \<Rightarrow> s)"

definition run :: "'m Imports \<Rightarrow> 'm Event list \<Rightarrow> ExtState \<Rightarrow> ExtState" where
  "run env evs s = fold (step env) evs s"

subsection \<open>Notions used to state the properties\<close>

text \<open>
  The objects a run of pushes makes when the next free identity is \<open>n\<close>: what the
  listener of lines 52 to 82 appends to \<open>localDisposables\<close>.
\<close>

fun alloc :: "nat \<Rightarrow> (Origin \<times> DocumentSelector option \<times> string) list \<Rightarrow> Disposable list" where
  "alloc n [] = []"
| "alloc n (c # cs) =
     \<lparr>ident = n, origin = fst c, selector = fst (snd c), triggerCharacters = snd (snd c)\<rparr>
     # alloc (Suc n) cs"

text \<open>The payload of the first server-start event of a trace.\<close>

fun first_start :: "'m Event list \<Rightarrow> string option" where
  "first_start [] = None"
| "first_start (ServerStart e # evs) = Some e"
| "first_start (_ # evs) = first_start evs"

fun isServerStart :: "'m Event \<Rightarrow> bool" where
  "isServerStart (ServerStart e) = True"
| "isServerStart _ = False"

text \<open>The project lists of a response; an absent section has no projects.\<close>

definition dotNetProjects :: "'m WorkspaceInformationResponse \<Rightarrow> DotNetProject list" where
  "dotNetProjects workspaceInfo =
     (case DotNet workspaceInfo of None \<Rightarrow> [] | Some d \<Rightarrow> DotNetWorkspaceInformation.Projects d)"

definition msBuildProjects :: "'m WorkspaceInformationResponse \<Rightarrow> 'm MSBuildProject list" where
  "msBuildProjects workspaceInfo =
     (case MsBuild workspaceInfo of None \<Rightarrow> [] | Some b \<Rightarrow> MsBuildWorkspaceInformation.Projects b)"

text \<open>The telemetry callback among the callbacks, and how many pending promises have it.\<close>

fun isTelemetryThen :: "Continuation \<Rightarrow> bool" where
  "isTelemetryThen (TelemetryThen m) = True"
| "isTelemetryThen _ = False"

definition telemetryPending :: "ExtState \<Rightarrow> nat" where
  "telemetryPending s = length (filter (\<lambda>p. isTelemetryThen (snd p)) (pending s))"

text \<open>Imports for the examples: a scheme, and no project counted as .NET Core.\<close>

definition env0 :: "unit Imports" where
  "env0 = \<lparr>metadataScheme = ''omnisharp-metadata'', isNetCoreProject = (\<lambda>p. False)\<rparr>"


text \<open>
  What a rejection leaves behind: the reason reaches the host, and nothing is shown,
  sent, written or stored.
\<close>

definition rejectionPropagated :: "ExtState \<Rightarrow> string \<Rightarrow> ExtState \<Rightarrow> bool" where
  "rejectionPropagated s err s' \<longleftrightarrow>
     warnings s' = warnings s \<and> telemetry s' = telemetry s \<and>
     workspaceState s' = workspaceState s \<and> channel s' = channel s \<and>
     channelShown s' = channelShown s \<and> unhandled s' = unhandled s @ [err]"

text \<open>How many pending promises have the callback of line 109.\<close>

definition warningPending :: "ExtState \<Rightarrow> nat" where
  "warningPending s = length (filter (\<lambda>p. snd p = WarningInfoThen) (pending s))"

text \<open>
  The event at which the warning is shown: a pending workspace-information request of
  the warning listener resolves with a \<open>DotNet\<close> section whose project list is not
  empty.
\<close>

definition showsWarning :: "ExtState \<Rightarrow> 'm Event \<Rightarrow> bool" where
  "showsWarning s ev =
     (case ev of
        WorkspaceInformationSettled pid (Resolved workspaceInfo) \<Rightarrow>
          map_of (pending s) pid = Some WarningInfoThen \<and>
          (case DotNet workspaceInfo of
             None \<Rightarrow> False
           | Some d \<Rightarrow> DotNetWorkspaceInformation.Projects d \<noteq> [])
      | _ \<Rightarrow> False)"

text \<open>
  A response for the examples: two project.json projects (one with two source files,
  one with none listed) and one MSBuild project, a Unity project with one source file.
\<close>

definition info0 :: "unit WorkspaceInformationResponse" where
  "info0 =
     \<lparr>DotNet = Some \<lparr>DotNetWorkspaceInformation.Projects =
         [\<lparr>DotNetProject.SourceFiles = Some [''a.cs'', ''b.cs'']\<rparr>,
          \<lparr>DotNetProject.SourceFiles = None\<rparr>]\<rparr>,
      MsBuild = Some \<lparr>MsBuildWorkspaceInformation.Projects =
         [\<lparr>MSBuildProject.SourceFiles = Some [''c.cs''], IsUnityProject = True, others = ()\<rparr>]\<rparr>\<rparr>"

subsection \<open>Invariants of the event loop\<close>

text \<open>The listeners and the options are those \<open>activate\<close> set up.\<close>

definition wired :: "StartListener list \<Rightarrow> Options \<Rightarrow> ExtState \<Rightarrow> bool" where
  "wired L opts s \<longleftrightarrow> startListeners s = L \<and> stopListeners s = [DisposeLocalDisposables]
     \<and> beforeStartListeners s = [StoreLastSolutionPathOrFolder] \<and> options s = opts"

text \<open>Identities handed out so far are below the next free one.\<close>

definition idsBounded :: "ExtState \<Rightarrow> bool" where
  "idsBounded s \<longleftrightarrow> (\<forall>d\<in>set (localDisposables s). ident d < nextId s)"

text \<open>Whatever was disposed is still on \<open>localDisposables\<close>.\<close>

definition disposedKept :: "ExtState \<Rightarrow> bool" where
  "disposedKept s \<longleftrightarrow> set (disposed s) \<subseteq> set (localDisposables s)"

text \<open>The selectors on \<open>localDisposables\<close>, with \<open>sch\<close> the scheme of the metadata documents.\<close>

definition selectorsOk :: "string \<Rightarrow> ExtState \<Rightarrow> bool" where
  "selectorsOk sch s \<longleftrightarrow>
     (\<forall>d\<in>set (localDisposables s).
        selector d = None \<or> selector d = Some documentSelector \<or>
        (origin d = RegisterDefinitionProvider \<and>
         selector d = Some \<lparr>language = None, scheme = Some sch\<rparr>))"


text \<open>No request of the warning listener is pending and no warning has been shown.\<close>

definition noWarningPending :: "ExtState \<Rightarrow> bool" where
  "noWarningPending s \<longleftrightarrow> (\<forall>p\<in>set (pending s). snd p \<noteq> WarningInfoThen) \<and> warnings s = []"

text \<open>Every pending telemetry callback holds the empty \<open>measures\<close> of line 126.\<close>

definition measuresEmpty :: "ExtState \<Rightarrow> bool" where
  "measuresEmpty s \<longleftrightarrow> (\<forall>p\<in>set (pending s). \<forall>m. snd p = TelemetryThen m \<longrightarrow> m = Map.empty)"

section \<open>The event loop: general facts\<close>

lemma fold_inv:
  "(\<And>l s. l \<in> set ls \<Longrightarrow> P s \<Longrightarrow> P (h l s)) \<Longrightarrow> P s \<Longrightarrow> P (fold h ls s)"
  by (induction ls arbitrary: s) auto

lemma fold_push:
  "fold push cs s =
     s\<lparr>localDisposables := localDisposables s @ alloc (nextId s) cs,
       nextId := nextId s + length cs\<rparr>"
  by (induction cs arbitrary: s) (simp_all add: push_def)

lemma registerProviders_eq:
  "registerProviders sch s =
     s\<lparr>localDisposables := localDisposables s @ alloc (nextId s) (providerCalls sch (options s)),
       nextId := nextId s + length (providerCalls sch (options s))\<rparr>"
  by (simp add: registerProviders_def fold_push)

lemma alloc_idents: "map ident (alloc n cs) = [n ..< n + length cs]"
  by (induction cs arbitrary: n) (simp_all add: upt_rec)

lemma alloc_origin: "map origin (alloc n cs) = map fst cs"
  by (induction cs arbitrary: n) simp_all

lemma stopHandler_eq: "stopHandler l s = s\<lparr>disposed := disposed s @ localDisposables s\<rparr>"
  by (cases l) simp

lemma beforeStartHandler_eq:
  "beforeStartHandler l path s =
     s\<lparr>workspaceState := (workspaceState s)(''lastSolutionPathOrFolder'' \<mapsto> JString path)\<rparr>"
  by (cases l) simp

lemmas handler_defs =
  stopHandler_eq beforeStartHandler_eq registerProviders_eq thenDo_def settle_def
  unhandledRejection_def assetsThen_def warningInfoThen_def warningItemThen_def telemetryThen_def resolveActivation_def

lemma wired_startHandler: "wired L opts s \<Longrightarrow> wired L opts (startHandler sch l e s)"
  by (cases l) (simp_all add: wired_def handler_defs split: option.splits)

lemma wired_step: "wired L opts s \<Longrightarrow> wired L opts (step env ev s)"
proof (cases ev)
  case (ServerStart e)
  assume w: "wired L opts s"
  have "wired L opts (fold (\<lambda>l. startHandler (metadataScheme env) l e) (startListeners s) s)"
    by (rule fold_inv[where P="wired L opts"]) (simp_all add: wired_startHandler w)
  then show ?thesis using ServerStart by simp
qed (auto simp: wired_def handler_defs split: option.splits Continuation.splits Outcome.splits)

lemma wired_run: "wired L opts s \<Longrightarrow> wired L opts (run env evs s)"
  unfolding run_def by (induction evs arbitrary: s) (simp_all add: wired_step)

lemma step_inv:
  assumes start: "\<And>l e s. P s \<Longrightarrow> P (startHandler (metadataScheme env) l e s)"
    and stop: "\<And>l s. P s \<Longrightarrow> P (stopHandler l s)"
    and before: "\<And>l p s. P s \<Longrightarrow> P (beforeStartHandler l p s)"
    and settle: "\<And>pid s. P s \<Longrightarrow> P (settle pid s)"
    and rej: "\<And>err s. P s \<Longrightarrow> P (unhandledRejection err s)"
    and assets: "\<And>r s. P s \<Longrightarrow> P (assetsThen r s)"
    and winfo: "\<And>(i :: 'm WorkspaceInformationResponse) s. P s \<Longrightarrow> P (warningInfoThen i s)"
    and witem: "\<And>i s. P s \<Longrightarrow> P (warningItemThen i s)"
    and tel: "\<And>m i s. P s \<Longrightarrow> P (telemetryThen env m i s)"
    and P: "P s"
  shows "P (step env (ev :: 'm Event) s)"
proof (cases ev)
  case (BeforeServerStart path)
  have "P (fold (\<lambda>l. beforeStartHandler l path) (beforeStartListeners s) s)"
    by (rule fold_inv[where P=P]) (simp_all add: before P)
  then show ?thesis using BeforeServerStart by simp
next
  case (ServerStart e)
  have "P (fold (\<lambda>l. startHandler (metadataScheme env) l e) (startListeners s) s)"
    by (rule fold_inv[where P=P]) (simp_all add: start P)
  then show ?thesis using ServerStart by simp
next
  case ServerStop
  have "P (fold stopHandler (stopListeners s) s)"
    by (rule fold_inv[where P=P]) (simp_all add: stop P)
  then show ?thesis using ServerStop by simp
next
  case (AssetsSettled pid out)
  then show ?thesis
    by (simp add: P settle rej assets split: option.splits Continuation.splits Outcome.splits)
next
  case (WorkspaceInformationSettled pid out)
  then show ?thesis
    by (simp add: P settle rej winfo tel split: option.splits Continuation.splits Outcome.splits)
next
  case (WarningMessageSettled pid out)
  then show ?thesis
    by (simp add: P settle rej witem split: option.splits Continuation.splits Outcome.splits)
qed

lemma run_inv:
  "(\<And>ev s. P s \<Longrightarrow> P (step env ev s)) \<Longrightarrow> P s \<Longrightarrow> P (run env evs s)"
  unfolding run_def by (induction evs arbitrary: s) simp_all

lemma set_alloc_ident: "d \<in> set (alloc n cs) \<Longrightarrow> n \<le> ident d \<and> ident d < n + length cs"
proof -
  assume "d \<in> set (alloc n cs)"
  then have "ident d \<in> set (map ident (alloc n cs))" by simp
  then show ?thesis by (simp add: alloc_idents)
qed

lemma idsBounded_startHandler: "idsBounded s \<Longrightarrow> idsBounded (startHandler sch l e s)"
  by (cases l) (auto simp: idsBounded_def handler_defs dest: set_alloc_ident split: option.splits)

lemma idsBounded_step: "idsBounded s \<Longrightarrow> idsBounded (step env ev s)"
  by (rule step_inv[where P=idsBounded])
     (simp_all add: idsBounded_startHandler, simp_all add: idsBounded_def handler_defs)

lemma idsBounded_run: "idsBounded s \<Longrightarrow> idsBounded (run env evs s)"
  by (rule run_inv[where P=idsBounded]) (simp_all add: idsBounded_step)

lemma disposedKept_startHandler: "disposedKept s \<Longrightarrow> disposedKept (startHandler sch l e s)"
  by (cases l) (auto simp: disposedKept_def handler_defs split: option.splits)

lemma disposedKept_step: "disposedKept s \<Longrightarrow> disposedKept (step env ev s)"
  by (rule step_inv[where P=disposedKept])
     (simp_all add: disposedKept_startHandler, auto simp: disposedKept_def handler_defs)

lemma prefix_startHandler:
  "prefix xs (localDisposables s) \<Longrightarrow> prefix xs (localDisposables (startHandler sch l e s))"
  by (cases l) (auto simp: handler_defs split: option.splits)

lemma prefix_step:
  "prefix xs (localDisposables s) \<Longrightarrow> prefix xs (localDisposables (step env ev s))"
  by (rule step_inv[where P="\<lambda>s. prefix xs (localDisposables s)"])
     (simp_all add: prefix_startHandler, auto simp: handler_defs)

lemma prefix_run:
  "prefix xs (localDisposables s) \<Longrightarrow> prefix xs (localDisposables (run env evs s))"
  by (rule run_inv[where P="\<lambda>s. prefix xs (localDisposables s)"]) (simp_all add: prefix_step)

lemma wired_activate:
  "wired (startListeners (activate opts ws cfg)) opts (activate opts ws cfg)"
  by (simp add: wired_def activate_def Let_def)

lemma wired_reach:
  "wired (startListeners (activate opts ws cfg)) opts (run env evs (activate opts ws cfg))"
  by (rule wired_run) (rule wired_activate)

lemma activate_listeners:
  "\<exists>rest. startListeners (activate opts ws cfg) = RegisterProviders # rest \<and> RegisterProviders \<notin> set rest"
  by (simp add: activate_def Let_def)

lemma other_listener_local:
  "l \<noteq> RegisterProviders \<Longrightarrow> localDisposables (startHandler sch l e s) = localDisposables s"
  by (cases l) (simp_all add: handler_defs split: option.splits)

lemma other_listeners_local:
  "RegisterProviders \<notin> set ls \<Longrightarrow>
   localDisposables (fold (\<lambda>l. startHandler sch l e) ls s) = localDisposables s"
  by (induction ls arbitrary: s) (auto simp: other_listener_local)

lemma start_local:
  assumes "wired (startListeners (activate opts ws cfg)) opts s"
  shows "localDisposables (step env (ServerStart e) s) =
           localDisposables s @ alloc (nextId s) (providerCalls (metadataScheme env) opts)"
proof -
  obtain rest where L: "startListeners (activate opts ws cfg) = RegisterProviders # rest"
    and r: "RegisterProviders \<notin> set rest"
    using activate_listeners by blast
  from assms have sl: "startListeners s = RegisterProviders # rest" and o: "options s = opts"
    by (simp_all add: wired_def L)
  show ?thesis
    by (simp add: sl other_listeners_local[OF r] registerProviders_eq o)
qed

lemma stop_disposed:
  assumes "wired L opts s"
  shows "disposed (step env ServerStop s) = disposed s @ localDisposables s"
  using assms by (simp add: wired_def)

lemma idsBounded_activate: "idsBounded (activate opts ws cfg)"
  by (simp add: idsBounded_def activate_def Let_def)

lemma disposedKept_activate: "disposedKept (activate opts ws cfg)"
  by (simp add: disposedKept_def activate_def Let_def)

lemma disposedKept_run: "disposedKept s \<Longrightarrow> disposedKept (run env evs s)"
  by (rule run_inv[where P=disposedKept]) (simp_all add: disposedKept_step)

lemma alloc_calls:
  "map (\<lambda>d. (origin d, selector d, triggerCharacters d)) (alloc n cs) = cs"
  by (induction cs arbitrary: n) simp_all

lemma listed_origins:
  "{RegisterDefinitionProvider, RegisterImplementationProvider, RegisterCodeLensProvider,
    RegisterDocumentHighlightProvider, RegisterDocumentSymbolProvider,
    RegisterReferenceProvider, RegisterHoverProvider, RegisterRenameProvider,
    RegisterCompletionItemProvider, RegisterWorkspaceSymbolProvider,
    RegisterSignatureHelpProvider, RegisterCodeActionsProvider, ReportDiagnostics,
    ForwardChanges} \<subseteq> fst ` set (providerCalls sch opts)"
  by (simp add: providerCalls_def)

lemma step_cases_inv:
  assumes start: "\<And>l e t. l \<in> set (startListeners s) \<Longrightarrow> P t \<Longrightarrow> P (startHandler (metadataScheme env) l e t)"
    and stop: "\<And>l t. P t \<Longrightarrow> P (stopHandler l t)"
    and before: "\<And>l p t. P t \<Longrightarrow> P (beforeStartHandler l p t)"
    and rej: "\<And>pid err. P (unhandledRejection err (settle pid s))"
    and assets: "\<And>pid r. (pid, AssetsThen) \<in> set (pending s) \<Longrightarrow> P (assetsThen r (settle pid s))"
    and winfo: "\<And>pid (i :: 'm WorkspaceInformationResponse).
        (pid, WarningInfoThen) \<in> set (pending s) \<Longrightarrow> P (warningInfoThen i (settle pid s))"
    and witem: "\<And>pid i. (pid, WarningItemThen) \<in> set (pending s) \<Longrightarrow> P (warningItemThen i (settle pid s))"
    and tel: "\<And>pid m i. (pid, TelemetryThen m) \<in> set (pending s) \<Longrightarrow> P (telemetryThen env m i (settle pid s))"
    and P: "P s"
  shows "P (step env (ev :: 'm Event) s)"
proof (cases ev)
  case (BeforeServerStart path)
  have "P (fold (\<lambda>l. beforeStartHandler l path) (beforeStartListeners s) s)"
    by (rule fold_inv[where P=P]) (simp_all add: before P)
  then show ?thesis using BeforeServerStart by simp
next
  case (ServerStart e)
  have "P (fold (\<lambda>l. startHandler (metadataScheme env) l e) (startListeners s) s)"
    by (rule fold_inv[where P=P]) (simp_all add: start P)
  then show ?thesis using ServerStart by simp
next
  case ServerStop
  have "P (fold stopHandler (stopListeners s) s)"
    by (rule fold_inv[where P=P]) (simp_all add: stop P)
  then show ?thesis using ServerStop by simp
next
  case (AssetsSettled pid out)
  then show ?thesis
    by (auto simp: P rej assets dest: map_of_SomeD split: option.splits Continuation.splits Outcome.splits)
next
  case (WorkspaceInformationSettled pid out)
  then show ?thesis
    by (auto simp: P rej winfo tel dest: map_of_SomeD split: option.splits Continuation.splits Outcome.splits)
next
  case (WarningMessageSettled pid out)
  then show ?thesis
    by (auto simp: P rej witem dest: map_of_SomeD split: option.splits Continuation.splits Outcome.splits)
qed

section \<open>The claims\<close>

subsection \<open>Providers follow the server's starts and stops\<close>

text \<open>
  C1. At any moment after activation (\<open>s0\<close>), a server-start event appends newly made
  disposables (\<open>new\<close>) to \<open>localDisposables\<close>: their identities are distinct from each
  other and from everything already on the list, and among them are the definition,
  implementation, code lens, document highlight, document symbol, reference, hover,
  rename, completion, workspace symbol, signature help and code action registrations,
  the diagnostics and the change forwarding. Whatever happens next (\<open>evs'\<close>), the next
  server-stop event disposes every one of them.
\<close>

theorem server_start_wires_providers_and_stop_disposes_them:
  "let s0 = run env evs (activate opts ws cfg);
       s1 = step env (ServerStart e) s0;
       new = drop (length (localDisposables s0)) (localDisposables s1);
       s2 = run env evs' s1;
       s3 = step env ServerStop s2
   in localDisposables s1 = localDisposables s0 @ new
      \<and> ident ` set new \<inter> ident ` set (localDisposables s0) = {}
      \<and> distinct (map ident new)
      \<and> {RegisterDefinitionProvider, RegisterImplementationProvider, RegisterCodeLensProvider,
          RegisterDocumentHighlightProvider, RegisterDocumentSymbolProvider,
          RegisterReferenceProvider, RegisterHoverProvider, RegisterRenameProvider,
          RegisterCompletionItemProvider, RegisterWorkspaceSymbolProvider,
          RegisterSignatureHelpProvider, RegisterCodeActionsProvider, ReportDiagnostics,
          ForwardChanges} \<subseteq> origin ` set new
      \<and> set new \<subseteq> set (drop (length (disposed s2)) (disposed s3))"
proof -
  define L where "L = startListeners (activate opts ws cfg)"
  define s0 where "s0 = run env evs (activate opts ws cfg)"
  define s1 where "s1 = step env (ServerStart e) s0"
  define new where "new = alloc (nextId s0) (providerCalls (metadataScheme env) opts)"
  define s2 where "s2 = run env evs' s1"
  define s3 where "s3 = step env ServerStop s2"
  have w0: "wired L opts s0" unfolding L_def s0_def by (rule wired_reach)
  have loc1: "localDisposables s1 = localDisposables s0 @ new"
    unfolding s1_def new_def using w0 unfolding L_def by (rule start_local)
  have new_eq: "drop (length (localDisposables s0)) (localDisposables s1) = new"
    by (simp add: loc1)
  have b0: "idsBounded s0" unfolding s0_def by (rule idsBounded_run) (rule idsBounded_activate)
  have fresh: "ident ` set new \<inter> ident ` set (localDisposables s0) = {}"
  proof -
    have "\<And>d d'. d \<in> set new \<Longrightarrow> d' \<in> set (localDisposables s0) \<Longrightarrow> ident d \<noteq> ident d'"
    proof -
      fix d d' assume "d \<in> set new" "d' \<in> set (localDisposables s0)"
      then have "nextId s0 \<le> ident d" "ident d' < nextId s0"
        using b0 set_alloc_ident[of d "nextId s0"] by (auto simp: new_def idsBounded_def)
      then show "ident d \<noteq> ident d'" by simp
    qed
    then show ?thesis by blast
  qed
  have dist: "distinct (map ident new)" by (simp add: new_def alloc_idents)
  have orig: "origin ` set new = fst ` set (providerCalls (metadataScheme env) opts)"
  proof -
    have "origin ` set new = set (map origin new)" by simp
    also have "\<dots> = set (map fst (providerCalls (metadataScheme env) opts))"
      by (simp only: new_def alloc_origin)
    finally show ?thesis by simp
  qed
  have w1: "wired L opts s1" unfolding s1_def using w0 by (rule wired_step)
  have w2: "wired L opts s2" unfolding s2_def using w1 by (rule wired_run)
  have "prefix (localDisposables s1) (localDisposables s2)"
    unfolding s2_def by (rule prefix_run) simp
  then have sub: "set new \<subseteq> set (localDisposables s2)"
    by (auto simp: loc1 prefix_def)
  have disp: "disposed s3 = disposed s2 @ localDisposables s2"
    unfolding s3_def using w2 by (rule stop_disposed)
  have "set new \<subseteq> set (drop (length (disposed s2)) (disposed s3))"
    by (simp add: disp sub)
  with loc1 fresh dist orig listed_origins[of "metadataScheme env" opts] new_eq
  show ?thesis
    unfolding Let_def s0_def[symmetric] s1_def[symmetric] s2_def[symmetric] s3_def[symmetric]
    by simp
qed

text \<open>
  C9. \<open>localDisposables\<close> is empty at activation and only ever grows: the list at any
  moment is a prefix of the list at any later moment. A server-stop event disposes the
  whole list, and everything disposed earlier is still on it, so it is disposed again.
\<close>

theorem local_disposables_never_cleared:
  "let s = run env evs (activate opts ws cfg) in
     localDisposables (activate opts ws cfg) = []
     \<and> prefix (localDisposables s) (localDisposables (run env evs' s))
     \<and> disposed (step env ServerStop s) = disposed s @ localDisposables s
     \<and> set (disposed s) \<subseteq> set (localDisposables s)"
proof -
  define s where "s = run env evs (activate opts ws cfg)"
  have "localDisposables (activate opts ws cfg) = []" by (simp add: activate_def Let_def)
  moreover have "prefix (localDisposables s) (localDisposables (run env evs' s))"
    by (rule prefix_run) simp
  moreover have "disposed (step env ServerStop s) = disposed s @ localDisposables s"
    unfolding s_def by (rule stop_disposed) (rule wired_reach)
  moreover have "set (disposed s) \<subseteq> set (localDisposables s)"
    using disposedKept_run[OF disposedKept_activate, of env evs opts ws cfg]
    by (simp add: disposedKept_def s_def)
  ultimately show ?thesis unfolding Let_def s_def by simp
qed

subsection \<open>Document selectors and formatting\<close>

lemma alloc_filter_map:
  "map (\<lambda>d. g (origin d, selector d, triggerCharacters d))
     (filter (\<lambda>d. Q (origin d, selector d, triggerCharacters d)) (alloc n cs)) =
   map g (filter Q cs)"
  by (induction cs arbitrary: n) simp_all

lemma start_new:
  "drop (length (localDisposables (run env evs (activate opts ws cfg))))
     (localDisposables (step env (ServerStart e) (run env evs (activate opts ws cfg)))) =
   alloc (nextId (run env evs (activate opts ws cfg))) (providerCalls (metadataScheme env) opts)"
  by (simp only: start_local[OF wired_reach]) simp

lemma providerCalls_selectors:
  "c \<in> set (providerCalls sch opts) \<Longrightarrow>
     fst (snd c) = None \<or> fst (snd c) = Some documentSelector \<or>
     (fst c = RegisterDefinitionProvider \<and> fst (snd c) = Some \<lparr>language = None, scheme = Some sch\<rparr>)"
  by (auto simp: providerCalls_def split: if_splits)

lemma alloc_member:
  "d \<in> set (alloc n cs) \<Longrightarrow> (origin d, selector d, triggerCharacters d) \<in> set cs"
proof -
  assume "d \<in> set (alloc n cs)"
  then have "(origin d, selector d, triggerCharacters d)
      \<in> set (map (\<lambda>d. (origin d, selector d, triggerCharacters d)) (alloc n cs))"
    by (simp add: image_iff) blast
  then show ?thesis by (simp only: alloc_calls)
qed

lemma selectorsOk_startHandler:
  "options s = opts \<Longrightarrow> selectorsOk sch s \<Longrightarrow> selectorsOk sch (startHandler sch l e s)"
  by (cases l)
     (auto simp: selectorsOk_def handler_defs split: option.splits
           dest!: alloc_member providerCalls_selectors)

lemma selectorsOk_step:
  "selectorsOk (metadataScheme env) s \<Longrightarrow> selectorsOk (metadataScheme env) (step env ev s)"
  by (rule step_inv[where P="selectorsOk (metadataScheme env)"])
     (simp_all add: selectorsOk_startHandler, simp_all add: selectorsOk_def handler_defs)

lemma selectorsOk_reach: "selectorsOk (metadataScheme env) (run env evs (activate opts ws cfg))"
  by (rule run_inv[where P="selectorsOk (metadataScheme env)"])
     (simp_all add: selectorsOk_step, simp add: selectorsOk_def activate_def Let_def)

text \<open>
  C10. At any moment after activation, every disposable on \<open>localDisposables\<close> that
  was registered with a document selector has the selector
  \<open>{ language: 'csharp', scheme: 'file' }\<close>, unless it is a definition-provider
  registration with the selector \<open>{ scheme: <metadata scheme> }\<close>. Of the registrations
  of one server start, exactly one has another selector than the C# file selector, and
  it is the second of the two definition-provider registrations. The selectors are
  written out: the language \<open>csharp\<close> and the scheme \<open>file\<close>.
\<close>

theorem selectors_are_csharp_files_but_for_metadata_definitions:
  "let s0 = run env evs (activate opts ws cfg);
       new = drop (length (localDisposables s0)) (localDisposables (step env (ServerStart e) s0));
       csharpFile = \<lparr>language = Some ''csharp'', scheme = Some ''file''\<rparr>;
       metadataSelector = \<lparr>language = None, scheme = Some (metadataScheme env)\<rparr>
   in (\<forall>d\<in>set (localDisposables s0).
         selector d = None \<or> selector d = Some csharpFile \<or>
         (origin d = RegisterDefinitionProvider \<and> selector d = Some metadataSelector))
      \<and> map (\<lambda>d. (origin d, selector d))
           (filter (\<lambda>d. selector d \<noteq> None \<and> selector d \<noteq> Some csharpFile) new) =
         [(RegisterDefinitionProvider, Some metadataSelector)]
      \<and> map selector (filter (\<lambda>d. origin d = RegisterDefinitionProvider) new) =
         [Some csharpFile, Some metadataSelector]
      \<and> map (\<lambda>d. (origin d, selector d)) (filter (\<lambda>d. selector d \<noteq> None) new) =
         [(RegisterDefinitionProvider, Some csharpFile),
          (RegisterDefinitionProvider, Some metadataSelector),
          (RegisterImplementationProvider, Some csharpFile),
          (RegisterCodeLensProvider, Some csharpFile),
          (RegisterDocumentHighlightProvider, Some csharpFile),
          (RegisterDocumentSymbolProvider, Some csharpFile),
          (RegisterReferenceProvider, Some csharpFile),
          (RegisterHoverProvider, Some csharpFile),
          (RegisterRenameProvider, Some csharpFile)]
         @ (if useFormatting opts
            then [(RegisterDocumentRangeFormattingEditProvider, Some csharpFile),
                  (RegisterOnTypeFormattingEditProvider, Some csharpFile)]
            else [])
         @ [(RegisterCompletionItemProvider, Some csharpFile),
            (RegisterSignatureHelpProvider, Some csharpFile),
            (RegisterCodeActionsProvider, Some csharpFile)]
      \<and> documentSelector = csharpFile"
proof -
  define n where "n = nextId (run env evs (activate opts ws cfg))"
  define cs where "cs = providerCalls (metadataScheme env) opts"
  define csharpFile where "csharpFile = \<lparr>language = Some ''csharp'', scheme = Some ''file''\<rparr>"
  define metadataSelector where
    "metadataSelector = \<lparr>language = None, scheme = Some (metadataScheme env)\<rparr>"
  have ds: "documentSelector = csharpFile"
    by (simp add: documentSelector_def csharpFile_def)
  have a: "map (\<lambda>d. (origin d, selector d))
           (filter (\<lambda>d. selector d \<noteq> None \<and> selector d \<noteq> Some csharpFile) (alloc n cs)) =
         [(RegisterDefinitionProvider, Some metadataSelector)]"
    using alloc_filter_map[where g="\<lambda>c. (fst c, fst (snd c))"
        and Q="\<lambda>c. fst (snd c) \<noteq> None \<and> fst (snd c) \<noteq> Some csharpFile" and n=n and cs=cs]
    by (simp add: cs_def providerCalls_def documentSelector_def csharpFile_def
          metadataSelector_def)
  have b: "map selector (filter (\<lambda>d. origin d = RegisterDefinitionProvider) (alloc n cs)) =
         [Some csharpFile, Some metadataSelector]"
    using alloc_filter_map[where g="\<lambda>c. fst (snd c)"
        and Q="\<lambda>c. fst c = RegisterDefinitionProvider" and n=n and cs=cs]
    by (simp add: cs_def providerCalls_def ds metadataSelector_def)
  have c: "map (\<lambda>d. (origin d, selector d)) (filter (\<lambda>d. selector d \<noteq> None) (alloc n cs)) =
         [(RegisterDefinitionProvider, Some csharpFile),
          (RegisterDefinitionProvider, Some metadataSelector),
          (RegisterImplementationProvider, Some csharpFile),
          (RegisterCodeLensProvider, Some csharpFile),
          (RegisterDocumentHighlightProvider, Some csharpFile),
          (RegisterDocumentSymbolProvider, Some csharpFile),
          (RegisterReferenceProvider, Some csharpFile),
          (RegisterHoverProvider, Some csharpFile),
          (RegisterRenameProvider, Some csharpFile)]
         @ (if useFormatting opts
            then [(RegisterDocumentRangeFormattingEditProvider, Some csharpFile),
                  (RegisterOnTypeFormattingEditProvider, Some csharpFile)]
            else [])
         @ [(RegisterCompletionItemProvider, Some csharpFile),
            (RegisterSignatureHelpProvider, Some csharpFile),
            (RegisterCodeActionsProvider, Some csharpFile)]"
    using alloc_filter_map[where g="\<lambda>c. (fst c, fst (snd c))"
        and Q="\<lambda>c. fst (snd c) \<noteq> None" and n=n and cs=cs]
    by (simp add: cs_def providerCalls_def ds metadataSelector_def)
  have d: "\<forall>d\<in>set (localDisposables (run env evs (activate opts ws cfg))).
         selector d = None \<or> selector d = Some csharpFile \<or>
         (origin d = RegisterDefinitionProvider \<and> selector d = Some metadataSelector)"
    using selectorsOk_reach[of env evs opts ws cfg]
    by (simp add: selectorsOk_def ds metadataSelector_def)
  show ?thesis
    unfolding Let_def start_new
    unfolding n_def[symmetric] cs_def[symmetric] csharpFile_def[symmetric]
      metadataSelector_def[symmetric]
    by (intro conjI a b c d ds)
qed

text \<open>The selectors on \<open>localDisposables\<close> after a first server start.\<close>

theorem selectors_witness:
  "map selector (localDisposables (run env0 [ServerStart ''/ws/app.sln'']
      (activate \<lparr>useFormatting = True, autoStart = True\<rparr> Map.empty Map.empty))) =
   [None,
    Some \<lparr>language = Some ''csharp'', scheme = Some ''file''\<rparr>,
    Some \<lparr>language = None, scheme = Some ''omnisharp-metadata''\<rparr>,
    Some \<lparr>language = Some ''csharp'', scheme = Some ''file''\<rparr>,
    None,
    Some \<lparr>language = Some ''csharp'', scheme = Some ''file''\<rparr>,
    Some \<lparr>language = Some ''csharp'', scheme = Some ''file''\<rparr>,
    Some \<lparr>language = Some ''csharp'', scheme = Some ''file''\<rparr>,
    Some \<lparr>language = Some ''csharp'', scheme = Some ''file''\<rparr>,
    Some \<lparr>language = Some ''csharp'', scheme = Some ''file''\<rparr>,
    Some \<lparr>language = Some ''csharp'', scheme = Some ''file''\<rparr>,
    Some \<lparr>language = Some ''csharp'', scheme = Some ''file''\<rparr>,
    Some \<lparr>language = Some ''csharp'', scheme = Some ''file''\<rparr>,
    Some \<lparr>language = Some ''csharp'', scheme = Some ''file''\<rparr>,
    None,
    Some \<lparr>language = Some ''csharp'', scheme = Some ''file''\<rparr>,
    None,
    Some \<lparr>language = Some ''csharp'', scheme = Some ''file''\<rparr>,
    None, None]"
  using selectors_are_csharp_files_but_for_metadata_definitions
    [where env=env0 and evs="[ServerStart ''/ws/app.sln'']"
       and opts="\<lparr>useFormatting = True, autoStart = True\<rparr>" and ws=Map.empty
       and cfg=Map.empty and e="''/ws/app.sln''"]
  by (simp add: Let_def run_def env0_def activate_def handler_defs providerCalls_def
        documentSelector_def)

text \<open>
  C6, as stated, fails: with \<open>useFormatting\<close> off, a server start registers neither
  formatting provider.
\<close>

theorem formatting_always_registered_counterexample:
  "RegisterDocumentRangeFormattingEditProvider \<notin> origin ` set (localDisposables
     (step env0 (ServerStart ''/ws/app.sln'')
        (activate \<lparr>useFormatting = False, autoStart = True\<rparr> Map.empty Map.empty)))
   \<and> RegisterOnTypeFormattingEditProvider \<notin> origin ` set (localDisposables
     (step env0 (ServerStart ''/ws/app.sln'')
        (activate \<lparr>useFormatting = False, autoStart = True\<rparr> Map.empty Map.empty)))"
  by (simp add: activate_def Let_def handler_defs providerCalls_def)

text \<open>
  C6, amended. The registrations of a server start hold the range formatting provider
  and the on-type formatting provider (trigger characters \<open>}\<close> and \<open>;\<close>), both
  with the C# file selector and in this order, when \<open>options.useFormatting\<close> is set, and
  no formatting provider when it is not.
\<close>

theorem formatting_registered_when_enabled:
  "let s0 = run env evs (activate opts ws cfg);
       new = drop (length (localDisposables s0)) (localDisposables (step env (ServerStart e) s0))
   in map (\<lambda>d. (origin d, selector d, triggerCharacters d))
        (filter (\<lambda>d. origin d = RegisterDocumentRangeFormattingEditProvider
                     \<or> origin d = RegisterOnTypeFormattingEditProvider) new) =
      (if useFormatting opts
       then [(RegisterDocumentRangeFormattingEditProvider, Some documentSelector, []),
             (RegisterOnTypeFormattingEditProvider, Some documentSelector, ''};'')]
       else [])"
  unfolding Let_def start_new
  using alloc_filter_map[where g="\<lambda>c. c"
        and Q="\<lambda>c. fst c = RegisterDocumentRangeFormattingEditProvider
                     \<or> fst c = RegisterOnTypeFormattingEditProvider"
        and n="nextId (run env evs (activate opts ws cfg))"
        and cs="providerCalls (metadataScheme env) opts"]
  by (simp add: providerCalls_def)

subsection \<open>The promise returned by activate\<close>

lemma activate_listeners_last:
  "\<exists>pre. startListeners (activate opts ws cfg) = pre @ [ResolveActivation] \<and> ResolveActivation \<notin> set pre"
  by (simp add: activate_def Let_def)

lemma other_listener_activated:
  "l \<noteq> ResolveActivation \<Longrightarrow> activated (startHandler sch l e s) = activated s"
  by (cases l) (simp_all add: handler_defs)

lemma other_listeners_activated:
  "ResolveActivation \<notin> set ls \<Longrightarrow>
   activated (fold (\<lambda>l. startHandler sch l e) ls s) = activated s"
  by (induction ls arbitrary: s) (auto simp: other_listener_activated)

lemma start_activated:
  assumes "wired (startListeners (activate opts ws cfg)) opts s"
  shows "activated (step env (ServerStart e) s) =
           (case activated s of None \<Rightarrow> Some e | Some x \<Rightarrow> Some x)"
proof -
  obtain pre where L: "startListeners (activate opts ws cfg) = pre @ [ResolveActivation]"
    and r: "ResolveActivation \<notin> set pre"
    using activate_listeners_last by blast
  from assms have sl: "startListeners s = pre @ [ResolveActivation]"
    by (simp add: wired_def L)
  show ?thesis
    by (simp add: sl other_listeners_activated[OF r] resolveActivation_def split: option.splits)
qed

lemma other_event_activated:
  "\<not> isServerStart ev \<Longrightarrow> activated (step env ev s) = activated s"
proof -
  assume n: "\<not> isServerStart ev"
  have "(\<lambda>t. activated t = activated s) (step env ev s)"
  proof (cases ev)
    case (BeforeServerStart path)
    have "(\<lambda>t. activated t = activated s) (fold (\<lambda>l. beforeStartHandler l path) (beforeStartListeners s) s)"
      by (rule fold_inv) (simp_all add: handler_defs)
    then show ?thesis using BeforeServerStart by simp
  next
    case ServerStop
    have "(\<lambda>t. activated t = activated s) (fold stopHandler (stopListeners s) s)"
      by (rule fold_inv) (simp_all add: handler_defs)
    then show ?thesis using ServerStop by simp
  qed (use n in \<open>auto simp: handler_defs split: option.splits Continuation.splits Outcome.splits\<close>)
  then show ?thesis .
qed

lemma run_activated:
  "wired (startListeners (activate opts ws cfg)) opts s \<Longrightarrow>
   activated (run env evs s) = (case activated s of Some x \<Rightarrow> Some x | None \<Rightarrow> first_start evs)"
proof (induction evs arbitrary: s)
  case Nil
  then show ?case by (simp add: run_def split: option.splits)
next
  case (Cons ev evs)
  have w: "wired (startListeners (activate opts ws cfg)) opts (step env ev s)"
    using Cons.prems by (rule wired_step)
  have r: "run env (ev # evs) s = run env evs (step env ev s)" by (simp add: run_def)
  have "activated (run env (ev # evs) s) = activated (run env evs (step env ev s))"
    by (simp only: r)
  also have "\<dots> = (case activated (step env ev s) of Some x \<Rightarrow> Some x | None \<Rightarrow> first_start evs)"
    by (rule Cons.IH[OF w])
  finally have eq: "activated (run env (ev # evs) s) =
      (case activated (step env ev s) of Some x \<Rightarrow> Some x | None \<Rightarrow> first_start evs)" .
  show ?case
  proof (cases "isServerStart ev")
    case True
    then obtain e where ev: "ev = ServerStart e" by (cases ev) simp_all
    have "activated (step env ev s) = (case activated s of None \<Rightarrow> Some e | Some x \<Rightarrow> Some x)"
      unfolding ev using Cons.prems by (rule start_activated)
    then show ?thesis
      unfolding eq by (simp add: ev split: option.splits)
  next
    case False
    then have "first_start (ev # evs) = first_start evs" by (cases ev) simp_all
    then show ?thesis
      unfolding eq other_event_activated[OF False] by (simp split: option.splits)
  qed
qed

lemma first_start_None: "(first_start evs = None) = (filter isServerStart evs = [])"
  by (induction evs rule: first_start.induct) simp_all

text \<open>
  C8. After any trace of events, the promise \<open>activate\<close> returned is resolved with the
  payload of the first server-start event of the trace, and it is unresolved exactly
  when the trace has no server-start event.
\<close>

theorem activation_promise_resolves_at_first_start:
  "activated (run env evs (activate opts ws cfg)) = first_start evs
   \<and> (activated (run env evs (activate opts ws cfg)) = None) = (filter isServerStart evs = [])"
proof -
  have "activated (activate opts ws cfg) = None" by (simp add: activate_def Let_def)
  then have "activated (run env evs (activate opts ws cfg)) = first_start evs"
    using run_activated[OF wired_activate, where env=env and evs=evs] by simp
  then show ?thesis by (simp add: first_start_None)
qed

subsection \<open>The persisted workspace state\<close>













subsection \<open>Rejected promises\<close>

lemma map_of_settled: "map_of (filter (\<lambda>p. fst p \<noteq> pid) xs) pid = None"
  by (induction xs) auto

text \<open>
  C7. In any state, when the pending promise \<open>pid\<close> is the asset pipeline, the
  workspace-information request of the warning or the one of the telemetry, and it is
  rejected with \<open>err\<close>: no callback of this file runs, so no warning is shown, no
  telemetry event is sent, nothing is written to the output channel and the workspace
  state is not updated; the rejection reaches the host unhandled; and the promise is
  no longer pending, so its callback never runs later.
\<close>

theorem rejections_reach_the_host_and_nothing_else_happens:
  "(map_of (pending s) pid = Some AssetsThen \<longrightarrow>
      (let s' = step env (AssetsSettled pid (Rejected err)) s
       in rejectionPropagated s err s' \<and> map_of (pending s') pid = None))
   \<and> (map_of (pending s) pid = Some WarningInfoThen \<longrightarrow>
      (let s' = step env (WorkspaceInformationSettled pid (Rejected err)) s
       in rejectionPropagated s err s' \<and> map_of (pending s') pid = None))
   \<and> (map_of (pending s) pid = Some (TelemetryThen m) \<longrightarrow>
      (let s' = step env (WorkspaceInformationSettled pid (Rejected err)) s
       in rejectionPropagated s err s' \<and> map_of (pending s') pid = None))"
  by (simp add: Let_def rejectionPropagated_def handler_defs map_of_settled)

text \<open>After one server start, each of the three requests rejected.\<close>

theorem rejections_witness:
  "rejectionPropagated
       (run env0 [ServerStart ''/ws/app.sln'']
          (activate \<lparr>useFormatting = True, autoStart = True\<rparr> Map.empty Map.empty))
       ''no dotnet''
       (run env0 [ServerStart ''/ws/app.sln'', AssetsSettled 0 (Rejected ''no dotnet'')]
          (activate \<lparr>useFormatting = True, autoStart = True\<rparr> Map.empty Map.empty))
   \<and> rejectionPropagated
       (run env0 [ServerStart ''/ws/app.sln'']
          (activate \<lparr>useFormatting = True, autoStart = True\<rparr> Map.empty Map.empty))
       ''timeout''
       (run env0 [ServerStart ''/ws/app.sln'', WorkspaceInformationSettled 1 (Rejected ''timeout'')]
          (activate \<lparr>useFormatting = True, autoStart = True\<rparr> Map.empty Map.empty))
   \<and> rejectionPropagated
       (run env0 [ServerStart ''/ws/app.sln'']
          (activate \<lparr>useFormatting = True, autoStart = True\<rparr> Map.empty Map.empty))
       ''server stopped''
       (run env0 [ServerStart ''/ws/app.sln'', WorkspaceInformationSettled 2 (Rejected ''server stopped'')]
          (activate \<lparr>useFormatting = True, autoStart = True\<rparr> Map.empty Map.empty))
   \<and> unhandled (run env0
       [ServerStart ''/ws/app.sln'', AssetsSettled 0 (Rejected ''no dotnet''),
        WorkspaceInformationSettled 1 (Rejected ''timeout''),
        WorkspaceInformationSettled 2 (Rejected ''server stopped'')]
       (activate \<lparr>useFormatting = True, autoStart = True\<rparr> Map.empty Map.empty)) =
     [''no dotnet'', ''timeout'', ''server stopped'']"
  using rejections_reach_the_host_and_nothing_else_happens
    [where s="run env0 [ServerStart ''/ws/app.sln'']
          (activate \<lparr>useFormatting = True, autoStart = True\<rparr> Map.empty Map.empty)"
        and pid=0 and m=Map.empty and env=env0 and err="''no dotnet''"]
    rejections_reach_the_host_and_nothing_else_happens
    [where s="run env0 [ServerStart ''/ws/app.sln'']
          (activate \<lparr>useFormatting = True, autoStart = True\<rparr> Map.empty Map.empty)"
        and pid=1 and m=Map.empty and env=env0 and err="''timeout''"]
    rejections_reach_the_host_and_nothing_else_happens
    [where s="run env0 [ServerStart ''/ws/app.sln'']
          (activate \<lparr>useFormatting = True, autoStart = True\<rparr> Map.empty Map.empty)"
        and pid=2 and m=Map.empty and env=env0 and err="''server stopped''"]
  by (simp add: Let_def run_def activate_def handler_defs rejectionPropagated_def)

subsection \<open>The project.json warning\<close>

lemma startHandler_warnings: "warnings (startHandler sch l e s) = warnings s"
  by (cases l) (simp_all add: handler_defs split: option.splits)

lemma warning_step:
  "warnings (step env ev s) =
     warnings s @ (if showsWarning s ev then [(shortMessage, [''More Detail''])] else [])"
proof (cases ev)
  case (BeforeServerStart path)
  have "(\<lambda>t. warnings t = warnings s) (fold (\<lambda>l. beforeStartHandler l path) (beforeStartListeners s) s)"
    by (rule fold_inv) (simp_all add: handler_defs)
  then show ?thesis using BeforeServerStart by (simp add: showsWarning_def)
next
  case (ServerStart e)
  have "(\<lambda>t. warnings t = warnings s) (fold (\<lambda>l. startHandler (metadataScheme env) l e) (startListeners s) s)"
    by (rule fold_inv) (simp_all add: startHandler_warnings)
  then show ?thesis using ServerStart by (simp add: showsWarning_def)
next
  case ServerStop
  have "(\<lambda>t. warnings t = warnings s) (fold stopHandler (stopListeners s) s)"
    by (rule fold_inv) (simp_all add: handler_defs)
  then show ?thesis using ServerStop by (simp add: showsWarning_def)
qed (auto simp: showsWarning_def handler_defs hasDotNetProjects_def
       split: option.splits Continuation.splits Outcome.splits)

lemma noWarning_step:
  assumes "ProjectJsonWarning \<notin> set (startListeners s)" "noWarningPending s"
  shows "noWarningPending (step env ev s)"
proof (rule step_cases_inv[where P=noWarningPending])
  fix l e t assume "l \<in> set (startListeners s)" "noWarningPending t"
  with assms(1) show "noWarningPending (startHandler (metadataScheme env) l e t)"
    by (cases l) (auto simp: noWarningPending_def handler_defs split: option.splits)
next
  fix pid and i :: "'a WorkspaceInformationResponse"
  assume "(pid, WarningInfoThen) \<in> set (pending s)"
  with assms(2) show "noWarningPending (warningInfoThen i (settle pid s))"
    by (auto simp: noWarningPending_def)
qed (use assms(2) in \<open>auto simp: noWarningPending_def handler_defs\<close>)

lemma noWarning_run:
  assumes "wired L opts s" "ProjectJsonWarning \<notin> set L" "noWarningPending s"
  shows "noWarningPending (run env evs s)"
  using assms
proof (induction evs arbitrary: s)
  case Nil
  then show ?case by (simp add: run_def)
next
  case (Cons ev evs)
  have sl: "startListeners s = L" using Cons.prems(1) by (simp add: wired_def)
  have "noWarningPending (run env evs (step env ev s))"
    using Cons.prems by (intro Cons.IH wired_step noWarning_step) (simp_all add: sl)
  then show ?case by (simp add: run_def)
qed

lemma warning_registered:
  "(ProjectJsonWarning \<in> set (startListeners (activate opts ws cfg))) =
   (\<not> truthy (cfg ''suppressProjectJsonWarning''))"
  by (simp add: activate_def Let_def)

lemma start_warningPending:
  assumes "wired (startListeners (activate opts ws cfg)) opts s"
  shows "warningPending (step env (ServerStart e) s) =
     warningPending s + (if truthy (cfg ''suppressProjectJsonWarning'') then 0 else 1)"
  using assms
  by (cases "truthy (ws ''assetPromptDisabled'')"; cases "truthy (cfg ''suppressProjectJsonWarning'')")
     (simp_all add: wired_def activate_def Let_def handler_defs warningPending_def
        split: option.splits)

text \<open>
  C4. At any moment after activation (\<open>s\<close>): the warning listener is registered
  exactly when \<open>csharp.suppressProjectJsonWarning\<close> was not truthy at activation; when
  it was truthy, no warning has been shown and no request of the listener is pending;
  a server start issues one request of the listener when the option was not truthy and
  none when it was; and an event shows the warning exactly when it resolves a pending
  request of the listener with a \<open>DotNet\<close> section whose project list is not empty.
\<close>

theorem migration_warning_shown_iff:
  "let s = run env evs (activate opts ws cfg);
       suppress = truthy (cfg ''suppressProjectJsonWarning'')
   in (ProjectJsonWarning \<in> set (startListeners s)) = (\<not> suppress)
      \<and> (suppress \<longrightarrow> warnings s = [] \<and> warningPending s = 0)
      \<and> warningPending (step env (ServerStart e) s) =
          warningPending s + (if suppress then 0 else 1)
      \<and> (\<forall>ev. warnings (step env ev s) =
            warnings s @ (if showsWarning s ev then [(shortMessage, [''More Detail''])] else []))"
proof -
  define L where "L = startListeners (activate opts ws cfg)"
  define s where "s = run env evs (activate opts ws cfg)"
  have w: "wired L opts s" unfolding L_def s_def by (rule wired_reach)
  have 1: "(ProjectJsonWarning \<in> set (startListeners s)) = (\<not> truthy (cfg ''suppressProjectJsonWarning''))"
    using w warning_registered[of opts ws cfg] by (simp add: wired_def L_def)
  have 2: "truthy (cfg ''suppressProjectJsonWarning'') \<longrightarrow> warnings s = [] \<and> warningPending s = 0"
  proof
    assume "truthy (cfg ''suppressProjectJsonWarning'')"
    then have "ProjectJsonWarning \<notin> set L" unfolding L_def by (simp add: warning_registered)
    moreover have "wired L opts (activate opts ws cfg)" unfolding L_def by (rule wired_activate)
    moreover have "noWarningPending (activate opts ws cfg)"
      by (simp add: noWarningPending_def activate_def Let_def)
    ultimately have "noWarningPending s" unfolding s_def by (intro noWarning_run)
    then show "warnings s = [] \<and> warningPending s = 0"
      by (auto simp: noWarningPending_def warningPending_def filter_empty_conv)
  qed
  have 3: "warningPending (step env (ServerStart e) s) =
          warningPending s + (if truthy (cfg ''suppressProjectJsonWarning'') then 0 else 1)"
    using w unfolding L_def by (rule start_warningPending)
  have 4: "\<forall>ev. warnings (step env ev s) =
            warnings s @ (if showsWarning s ev then [(shortMessage, [''More Detail''])] else [])"
    by (intro allI) (rule warning_step)
  show ?thesis
    unfolding Let_def s_def[symmetric] by (intro conjI 1 2 3 4)
qed

text \<open>
  One server start and its response: without the suppress option the warning is shown,
  with it nothing is shown.
\<close>

theorem migration_warning_witness:
  "warnings (step env0 (WorkspaceInformationSettled 1 (Resolved info0))
      (run env0 [ServerStart ''/ws/app.sln'']
         (activate \<lparr>useFormatting = True, autoStart = True\<rparr> Map.empty Map.empty))) =
     [(shortMessage, [''More Detail''])]
   \<and> warnings (run env0 [ServerStart ''/ws/app.sln'', WorkspaceInformationSettled 0 (Resolved info0)]
      (activate \<lparr>useFormatting = True, autoStart = True\<rparr> Map.empty
         [''suppressProjectJsonWarning'' \<mapsto> JBool True])) = []"
  using migration_warning_shown_iff
    [where env=env0 and evs="[ServerStart ''/ws/app.sln'']"
       and opts="\<lparr>useFormatting = True, autoStart = True\<rparr>" and ws=Map.empty
       and cfg=Map.empty]
    migration_warning_shown_iff
    [where env=env0
       and evs="[ServerStart ''/ws/app.sln'', WorkspaceInformationSettled 0 (Resolved info0)]"
       and opts="\<lparr>useFormatting = True, autoStart = True\<rparr>" and ws=Map.empty
       and cfg="[''suppressProjectJsonWarning'' \<mapsto> JBool True]"]
  by (simp add: Let_def run_def activate_def handler_defs info0_def hasDotNetProjects_def
        showsWarning_def)

subsection \<open>The telemetry event\<close>

lemma sum_common_from: "foldl (\<lambda>prev cur. prev + f cur) a xs = a + sum_list (map f xs)"
  by (induction xs arbitrary: a) (simp_all add: add.assoc)

lemma sum_common_sum_list: "sum_common xs f = sum_list (map f xs)"
  by (simp add: sum_common_def sum_common_from)

lemma sum_list_count: "(\<Sum>p\<leftarrow>xs. if Q p then 1 else 0) = length (filter Q xs)"
  by (induction xs) simp_all

lemma startHandler_telemetry: "telemetry (startHandler sch l e s) = telemetry s"
  by (cases l) (simp_all add: handler_defs split: option.splits)

lemma length_filter_settled:
  "length (filter Q (filter (\<lambda>p. fst p \<noteq> pid) xs)) \<le> length (filter Q xs)"
  by (induction xs) auto

lemma length_filter_settled_conj:
  "length (filter (\<lambda>p. fst p \<noteq> pid \<and> Q p) xs) \<le> length (filter Q xs)"
  by (induction xs) auto

lemma length_filter_settled_less:
  "map_of xs pid = Some k \<Longrightarrow> Q (pid, k) \<Longrightarrow>
   length (filter Q (filter (\<lambda>p. fst p \<noteq> pid) xs)) < length (filter Q xs)"
proof (induction xs)
  case Nil
  then show ?case by simp
next
  case (Cons x xs)
  show ?case
  proof (cases "fst x = pid")
    case True
    with Cons.prems have "x = (pid, k)" by (cases x) simp
    with Cons.prems(2) length_filter_settled[of Q pid xs] show ?thesis by simp
  next
    case False
    with Cons show ?thesis by (cases x) auto
  qed
qed

lemma start_telemetryPending:
  assumes "wired (startListeners (activate opts ws cfg)) opts s"
  shows "telemetryPending (step env (ServerStart e) s) = Suc (telemetryPending s)
         \<and> telemetry (step env (ServerStart e) s) = telemetry s"
  using assms
  by (cases "truthy (ws ''assetPromptDisabled'')"; cases "truthy (cfg ''suppressProjectJsonWarning'')")
     (simp_all add: wired_def activate_def Let_def handler_defs telemetryPending_def
        split: option.splits)

lemma telemetry_resolved:
  assumes "map_of (pending s) pid = Some (TelemetryThen m)"
  shows "telemetry (step env (WorkspaceInformationSettled pid (Resolved info)) s) =
           telemetry s @ [(''OmniSharp.Start'', fillMeasures env m info)]
         \<and> telemetryPending (step env (WorkspaceInformationSettled pid (Resolved info)) s)
             < telemetryPending s"
  using assms length_filter_settled_less[of "pending s" pid "TelemetryThen m" "\<lambda>p. isTelemetryThen (snd p)"]
  by (simp add: handler_defs telemetryPending_def)

lemma other_event_count:
  assumes "\<not> isServerStart ev"
  shows "length (telemetry (step env ev s)) + telemetryPending (step env ev s)
         \<le> length (telemetry s) + telemetryPending s"
proof (cases ev)
  case (BeforeServerStart path)
  have "(\<lambda>t. telemetry t = telemetry s \<and> pending t = pending s)
          (fold (\<lambda>l. beforeStartHandler l path) (beforeStartListeners s) s)"
    by (rule fold_inv) (simp_all add: handler_defs)
  then show ?thesis using BeforeServerStart by (simp add: telemetryPending_def)
next
  case (ServerStart e)
  with assms show ?thesis by simp
next
  case ServerStop
  have "(\<lambda>t. telemetry t = telemetry s \<and> pending t = pending s)
          (fold stopHandler (stopListeners s) s)"
    by (rule fold_inv) (simp_all add: handler_defs)
  then show ?thesis using ServerStop by (simp add: telemetryPending_def)
next
  case (AssetsSettled pid out)
  then show ?thesis
    by (auto simp: handler_defs telemetryPending_def length_filter_settled length_filter_settled_conj
        split: option.splits Continuation.splits Outcome.splits)
next
  case (WorkspaceInformationSettled pid out)
  show ?thesis
  proof (cases "\<exists>m info. map_of (pending s) pid = Some (TelemetryThen m) \<and> out = Resolved info")
    case True
    then obtain m info where "map_of (pending s) pid = Some (TelemetryThen m)" "out = Resolved info"
      by blast
    then show ?thesis
      unfolding WorkspaceInformationSettled using telemetry_resolved[of s pid m env info]
      by (simp del: step.simps)
  next
    case False
    then show ?thesis
      unfolding WorkspaceInformationSettled
      by (auto simp: handler_defs telemetryPending_def length_filter_settled length_filter_settled_conj
          split: option.splits Continuation.splits Outcome.splits)
  qed
next
  case (WarningMessageSettled pid out)
  then show ?thesis
    by (auto simp: handler_defs telemetryPending_def length_filter_settled length_filter_settled_conj
        split: option.splits Continuation.splits Outcome.splits)
qed

lemma run_count:
  assumes "wired (startListeners (activate opts ws cfg)) opts s"
  shows "length (telemetry (run env evs s)) + telemetryPending (run env evs s)
         \<le> length (telemetry s) + telemetryPending s + length (filter isServerStart evs)"
  using assms
proof (induction evs arbitrary: s)
  case Nil
  then show ?case by (simp add: run_def)
next
  case (Cons ev evs)
  have w: "wired (startListeners (activate opts ws cfg)) opts (step env ev s)"
    using Cons.prems by (rule wired_step)
  have r: "run env (ev # evs) s = run env evs (step env ev s)" by (simp add: run_def)
  have one: "length (telemetry (step env ev s)) + telemetryPending (step env ev s)
         \<le> length (telemetry s) + telemetryPending s + (if isServerStart ev then 1 else 0)"
  proof (cases "isServerStart ev")
    case True
    then obtain e where ev: "ev = ServerStart e" by (cases ev) simp_all
    show ?thesis unfolding ev using start_telemetryPending[OF Cons.prems, of env e]
      by (simp del: step.simps)
  next
    case False
    then show ?thesis using other_event_count[of ev env s] by simp
  qed
  show ?case unfolding r using Cons.IH[OF w] one by (cases "isServerStart ev") simp_all
qed

lemma names_step:
  assumes "fst ` set (telemetry s) \<subseteq> {''OmniSharp.Start''}"
  shows "fst ` set (telemetry (step env ev s)) \<subseteq> {''OmniSharp.Start''}"
  by (rule step_inv[where P="\<lambda>t. fst ` set (telemetry t) \<subseteq> {''OmniSharp.Start''}"])
     (use assms in \<open>simp_all add: startHandler_telemetry\<close>, simp_all add: handler_defs)

lemma names_reach:
  "fst ` set (telemetry (run env evs (activate opts ws cfg))) \<subseteq> {''OmniSharp.Start''}"
  by (rule run_inv[where P="\<lambda>t. fst ` set (telemetry t) \<subseteq> {''OmniSharp.Start''}"])
     (simp_all add: names_step, simp add: activate_def Let_def)

text \<open>
  C2, as stated, fails: the server starts, stops and starts again, both
  workspace-information requests resolve, and two \<open>OmniSharp.Start\<close> events are sent.
\<close>

theorem telemetry_sent_once_counterexample:
  "\<not> length (telemetry (run env0
        [ServerStart ''/ws/app.sln'', WorkspaceInformationSettled 2 (Resolved info0),
         ServerStop,
         ServerStart ''/ws/app.sln'', WorkspaceInformationSettled 5 (Resolved info0)]
        (activate \<lparr>useFormatting = True, autoStart = True\<rparr> Map.empty Map.empty))) \<le> 1"
  by (simp add: run_def activate_def Let_def handler_defs)

text \<open>
  C2, amended. At any moment after activation (\<open>s\<close>, after the trace \<open>evs\<close>): the
  events sent are all named \<open>OmniSharp.Start\<close> and there are at most as many as
  server-start events in the trace; a server start issues one telemetry request and
  sends nothing itself; a pending telemetry request that resolves sends exactly one
  event and is no longer pending.
\<close>

theorem telemetry_sent_once_per_resolved_start:
  "let s = run env evs (activate opts ws cfg) in
     length (telemetry s) \<le> length (filter isServerStart evs)
     \<and> fst ` set (telemetry s) \<subseteq> {''OmniSharp.Start''}
     \<and> telemetryPending (step env (ServerStart e) s) = Suc (telemetryPending s)
     \<and> telemetry (step env (ServerStart e) s) = telemetry s
     \<and> (\<forall>pid m info. map_of (pending s) pid = Some (TelemetryThen m) \<longrightarrow>
          length (telemetry (step env (WorkspaceInformationSettled pid (Resolved info)) s)) =
            Suc (length (telemetry s))
          \<and> telemetryPending (step env (WorkspaceInformationSettled pid (Resolved info)) s)
              < telemetryPending s)"
proof -
  define s where "s = run env evs (activate opts ws cfg)"
  have w: "wired (startListeners (activate opts ws cfg)) opts s"
    unfolding s_def by (rule wired_reach)
  have "length (telemetry s) + telemetryPending s
      \<le> length (telemetry (activate opts ws cfg)) + telemetryPending (activate opts ws cfg)
        + length (filter isServerStart evs)"
    unfolding s_def by (rule run_count) (rule wired_activate)
  then have 1: "length (telemetry s) \<le> length (filter isServerStart evs)"
    by (simp add: activate_def Let_def telemetryPending_def)
  have 2: "fst ` set (telemetry s) \<subseteq> {''OmniSharp.Start''}"
    unfolding s_def by (rule names_reach)
  have 3: "telemetryPending (step env (ServerStart e) s) = Suc (telemetryPending s)"
    and 4: "telemetry (step env (ServerStart e) s) = telemetry s"
    using start_telemetryPending[OF w, of env e] by blast+
  have 5: "\<forall>pid m info. map_of (pending s) pid = Some (TelemetryThen m) \<longrightarrow>
          length (telemetry (step env (WorkspaceInformationSettled pid (Resolved info)) s)) =
            Suc (length (telemetry s))
          \<and> telemetryPending (step env (WorkspaceInformationSettled pid (Resolved info)) s)
              < telemetryPending s"
  proof (intro allI impI)
    fix pid m and info :: "'a WorkspaceInformationResponse"
    assume "map_of (pending s) pid = Some (TelemetryThen m)"
    from telemetry_resolved[OF this, of env info]
    show "length (telemetry (step env (WorkspaceInformationSettled pid (Resolved info)) s)) =
            Suc (length (telemetry s))
          \<and> telemetryPending (step env (WorkspaceInformationSettled pid (Resolved info)) s)
              < telemetryPending s"
      by (simp del: step.simps)
  qed
  show ?thesis unfolding Let_def s_def[symmetric] by (intro conjI 1 2 3 4 5)
qed

text \<open>One server start whose request resolves: one event.\<close>

theorem telemetry_sent_witness:
  "length (telemetry (run env0
        [ServerStart ''/ws/app.sln'', WorkspaceInformationSettled 2 (Resolved info0)]
        (activate \<lparr>useFormatting = True, autoStart = True\<rparr> Map.empty Map.empty))) = 1"
  using telemetry_sent_once_per_resolved_start
    [where env=env0 and evs="[ServerStart ''/ws/app.sln'']"
       and opts="\<lparr>useFormatting = True, autoStart = True\<rparr>" and ws=Map.empty and cfg=Map.empty]
  by (simp add: Let_def run_def activate_def handler_defs)

lemma measuresEmpty_startHandler: "measuresEmpty s \<Longrightarrow> measuresEmpty (startHandler sch l e s)"
  by (cases l) (auto simp: measuresEmpty_def handler_defs split: option.splits)

lemma measuresEmpty_step: "measuresEmpty s \<Longrightarrow> measuresEmpty (step env ev s)"
  by (rule step_inv[where P=measuresEmpty])
     (simp_all add: measuresEmpty_startHandler, auto simp: measuresEmpty_def handler_defs)

lemma measuresEmpty_reach: "measuresEmpty (run env evs (activate opts ws cfg))"
  by (rule run_inv[where P=measuresEmpty])
     (simp_all add: measuresEmpty_step, simp add: measuresEmpty_def activate_def Let_def)

lemma fillMeasures_dotnet:
  "fillMeasures env Map.empty info ''projectjson.projectcount'' =
     (if dotNetProjects info = [] then None else Some (length (dotNetProjects info)))"
  "fillMeasures env Map.empty info ''projectjson.filecount'' =
     (if dotNetProjects info = [] then None
      else Some (sum_list (map (\<lambda>p. safeLength (DotNetProject.SourceFiles p)) (dotNetProjects info))))"
  by (simp_all add: fillMeasures_def hasDotNetProjects_def hasMsBuildProjects_def
        dotNetProjects_def Let_def sum_common_sum_list split: option.splits)

lemma fillMeasures_msbuild:
  "fillMeasures env Map.empty info ''msbuild.projectcount'' =
     (if msBuildProjects info = [] then None else Some (length (msBuildProjects info)))"
  "fillMeasures env Map.empty info ''msbuild.filecount'' =
     (if msBuildProjects info = [] then None
      else Some (sum_list (map (\<lambda>p. safeLength (MSBuildProject.SourceFiles p)) (msBuildProjects info))))"
  "fillMeasures env Map.empty info ''msbuild.unityprojectcount'' =
     (if msBuildProjects info = [] then None
      else Some (length (filter IsUnityProject (msBuildProjects info))))"
  "fillMeasures env Map.empty info ''msbuild.netcoreprojectcount'' =
     (if msBuildProjects info = [] then None
      else Some (length (filter (isNetCoreProject env) (msBuildProjects info))))"
  by (simp_all add: fillMeasures_def hasDotNetProjects_def hasMsBuildProjects_def
        msBuildProjects_def Let_def sum_common_sum_list sum_list_count split: option.splits)

lemma fillMeasures_dom:
  "dom (fillMeasures env Map.empty info) \<subseteq>
     {''projectjson.projectcount'', ''projectjson.filecount'', ''msbuild.projectcount'',
      ''msbuild.filecount'', ''msbuild.unityprojectcount'', ''msbuild.netcoreprojectcount''}"
  by (simp add: fillMeasures_def Let_def subset_iff dom_def)

text \<open>
  C3. At any moment after activation, a pending telemetry request that resolves with
  \<open>info\<close> sends \<open>OmniSharp.Start\<close> with the measures \<open>m\<close>, where: with a non-empty
  project.json list \<open>dn\<close>, \<open>projectjson.projectcount\<close> is its length and
  \<open>projectjson.filecount\<close> the sum of the lengths of the projects' source files (0 for
  an absent list); with a non-empty MSBuild list \<open>mb\<close>, \<open>msbuild.projectcount\<close> is its
  length, \<open>msbuild.filecount\<close> the same sum, \<open>msbuild.unityprojectcount\<close> the number
  of projects with \<open>IsUnityProject\<close> and \<open>msbuild.netcoreprojectcount\<close> the number
  of projects that \<open>isNetCoreProject\<close> accepts; the keys of an empty or absent list
  are not in \<open>m\<close>, and \<open>m\<close> has no other key.
\<close>

theorem telemetry_measures_are_the_project_metadata:
  "let s = run env evs (activate opts ws cfg);
       dn = dotNetProjects info;
       mb = msBuildProjects info;
       m = fillMeasures env Map.empty info
   in (\<forall>pid m0. map_of (pending s) pid = Some (TelemetryThen m0) \<longrightarrow>
         telemetry (step env (WorkspaceInformationSettled pid (Resolved info)) s) =
           telemetry s @ [(''OmniSharp.Start'', m)])
      \<and> m ''projectjson.projectcount'' = (if dn = [] then None else Some (length dn))
      \<and> m ''projectjson.filecount'' =
          (if dn = [] then None
           else Some (sum_list (map (\<lambda>p. safeLength (DotNetProject.SourceFiles p)) dn)))
      \<and> m ''msbuild.projectcount'' = (if mb = [] then None else Some (length mb))
      \<and> m ''msbuild.filecount'' =
          (if mb = [] then None
           else Some (sum_list (map (\<lambda>p. safeLength (MSBuildProject.SourceFiles p)) mb)))
      \<and> m ''msbuild.unityprojectcount'' =
          (if mb = [] then None else Some (length (filter IsUnityProject mb)))
      \<and> m ''msbuild.netcoreprojectcount'' =
          (if mb = [] then None else Some (length (filter (isNetCoreProject env) mb)))
      \<and> dom m \<subseteq>
          {''projectjson.projectcount'', ''projectjson.filecount'', ''msbuild.projectcount'',
           ''msbuild.filecount'', ''msbuild.unityprojectcount'', ''msbuild.netcoreprojectcount''}"
proof -
  define s where "s = run env evs (activate opts ws cfg)"
  have 1: "\<forall>pid m0. map_of (pending s) pid = Some (TelemetryThen m0) \<longrightarrow>
         telemetry (step env (WorkspaceInformationSettled pid (Resolved info)) s) =
           telemetry s @ [(''OmniSharp.Start'', fillMeasures env Map.empty info)]"
  proof (intro allI impI)
    fix pid m0 assume p: "map_of (pending s) pid = Some (TelemetryThen m0)"
    then have "(pid, TelemetryThen m0) \<in> set (pending s)" by (rule map_of_SomeD)
    moreover have "measuresEmpty s" unfolding s_def by (rule measuresEmpty_reach)
    ultimately have "m0 = Map.empty" by (auto simp: measuresEmpty_def)
    with telemetry_resolved[OF p, of env info]
    show "telemetry (step env (WorkspaceInformationSettled pid (Resolved info)) s) =
           telemetry s @ [(''OmniSharp.Start'', fillMeasures env Map.empty info)]"
      by (simp del: step.simps)
  qed
  show ?thesis
    unfolding Let_def s_def[symmetric]
    by (intro conjI 1 fillMeasures_dotnet fillMeasures_msbuild fillMeasures_dom)
qed

text \<open>The six measures of the example response.\<close>

theorem telemetry_measures_witness:
  "map (\<lambda>ev. (fst ev, map (snd ev)
        [''projectjson.projectcount'', ''projectjson.filecount'', ''msbuild.projectcount'',
         ''msbuild.filecount'', ''msbuild.unityprojectcount'', ''msbuild.netcoreprojectcount'']))
     (telemetry (run env0
        [ServerStart ''/ws/app.sln'', WorkspaceInformationSettled 2 (Resolved info0)]
        (activate \<lparr>useFormatting = True, autoStart = True\<rparr> Map.empty Map.empty))) =
   [(''OmniSharp.Start'', [Some 2, Some 2, Some 1, Some 1, Some 1, Some 0])]"
  using telemetry_measures_are_the_project_metadata
    [where env=env0 and evs="[ServerStart ''/ws/app.sln'']" and info=info0
       and opts="\<lparr>useFormatting = True, autoStart = True\<rparr>" and ws=Map.empty and cfg=Map.empty]
  by (simp add: Let_def run_def activate_def handler_defs env0_def info0_def
        dotNetProjects_def msBuildProjects_def safeLength_def)

end
